theory Spec2Isabelle
  imports Main "HOL-Library.Char_ord"
begin

section \<open>MicrowaveVM: a two-register Minsky machine and its two-pass loader\<close>

text \<open>
  A shallow embedding of \<^verbatim>\<open>src/main.py\<close> (class \<^verbatim>\<open>MicrowaveVM\<close>).

  Python strings are sequences of code points; here a string is a list of 8-bit
  characters, each read as the code point of the same number (0 to 255).  The string
  methods the loader calls are written out below for that range.  Python integers are
  unbounded and are modelled by \<^typ>\<open>int\<close>.  The interpreter's configurable limit on the
  number of digits accepted by \<^verbatim>\<open>int(str)\<close> is not modelled.
\<close>

subsection \<open>The string methods used by the program\<close>

text \<open>\<^verbatim>\<open>str.isspace\<close> on one character, as used by \<^verbatim>\<open>strip()\<close> and \<^verbatim>\<open>split()\<close>: the
  code points 9 to 13, 28 to 32, 133 and 160.\<close>

definition isspace :: "char \<Rightarrow> bool" where
  "isspace c =
     (c \<in> set [CHR 0x09, CHR 0x0A, CHR 0x0B, CHR 0x0C, CHR 0x0D, CHR 0x1C, CHR 0x1D,
                CHR 0x1E, CHR 0x1F, CHR 0x20, CHR 0x85, CHR 0xA0])"

text \<open>The line boundaries of \<^verbatim>\<open>str.splitlines\<close>, a carriage return apart (it is treated
  separately because \<^verbatim>\<open>\r\n\<close> is one boundary).\<close>

definition islinebreak :: "char \<Rightarrow> bool" where
  "islinebreak c =
     (c \<in> set [CHR 0x0A, CHR 0x0B, CHR 0x0C, CHR 0x1C, CHR 0x1D, CHR 0x1E, CHR 0x85])"

text \<open>\<^verbatim>\<open>source.splitlines()\<close>: the second argument is the line read so far, reversed.
  A boundary ends the line; the text after the last boundary is a line only when it is
  not empty.\<close>

fun splitlines_from :: "string \<Rightarrow> string \<Rightarrow> string list" where
  "splitlines_from [] cur = (if cur = [] then [] else [rev cur])"
| "splitlines_from [c] cur =
     (if c = CHR 0x0D \<or> islinebreak c then [rev cur] else [rev (c # cur)])"
| "splitlines_from (c # d # rest) cur =
     (if c = CHR 0x0D \<and> d = CHR 0x0A then rev cur # splitlines_from rest []
      else if c = CHR 0x0D \<or> islinebreak c then rev cur # splitlines_from (d # rest) []
      else splitlines_from (d # rest) (c # cur))"

definition splitlines :: "string \<Rightarrow> string list" where
  "splitlines s = splitlines_from s []"

text \<open>\<^verbatim>\<open>s.strip()\<close>.\<close>

definition strip :: "string \<Rightarrow> string" where
  "strip s = rev (dropWhile isspace (rev (dropWhile isspace s)))"

text \<open>\<^verbatim>\<open>s.split(sep, 1)[0]\<close> for a one-character separator: the text before the first
  occurrence of the separator, the whole string when there is none.\<close>

definition split_first :: "char \<Rightarrow> string \<Rightarrow> string" where
  "split_first sep s = takeWhile (\<lambda>c. c \<noteq> sep) s"

text \<open>\<^verbatim>\<open>s.split()\<close>: the maximal runs of characters that are not whitespace.  The
  second argument is the word read so far, reversed.\<close>

fun split_from :: "string \<Rightarrow> string \<Rightarrow> string list" where
  "split_from [] cur = (if cur = [] then [] else [rev cur])"
| "split_from (c # cs) cur =
     (if isspace c then (if cur = [] then split_from cs [] else rev cur # split_from cs [])
      else split_from cs (c # cur))"

definition split_ws :: "string \<Rightarrow> string list" where
  "split_ws s = split_from s []"

text \<open>\<^verbatim>\<open>s.replace(',', ' ')\<close>.\<close>

definition replace_commas :: "string \<Rightarrow> string" where
  "replace_commas s = map (\<lambda>c. if c = CHR '','' then CHR '' '' else c) s"

text \<open>\<^verbatim>\<open>s.endswith(':')\<close>.\<close>

definition endswith_colon :: "string \<Rightarrow> bool" where
  "endswith_colon s = (s \<noteq> [] \<and> last s = CHR '':'')"

text \<open>\<^verbatim>\<open>s.upper()\<close>, character by character: the letters a to z and the accented small
  letters 224 to 254 (247, the division sign, apart) move down by 32, the sharp s (223)
  becomes \<^verbatim>\<open>SS\<close>.  The upper-case forms of 181 and 255 lie beyond code point 255; these
  two characters are kept as they are, which no comparison of the program can observe,
  since no other character of the range is mapped to them.\<close>

definition upper_char :: "char \<Rightarrow> string" where
  "upper_char c =
     (if (CHR ''a'' \<le> c \<and> c \<le> CHR ''z'') \<or> (CHR 0xE0 \<le> c \<and> c \<le> CHR 0xFE \<and> c \<noteq> CHR 0xF7)
      then [char_of (of_char c - (32 :: nat))]
      else if c = CHR 0xDF then ''SS''
      else [c])"

definition upper :: "string \<Rightarrow> string" where
  "upper s = concat (map upper_char s)"

text \<open>\<^verbatim>\<open>int(s)\<close> on a string: surrounding whitespace is dropped, then an optional sign,
  then decimal digits, where single underscores may stand between digits.  \<open>None\<close>
  stands for the \<^verbatim>\<open>ValueError\<close> that \<^verbatim>\<open>int\<close> raises.\<close>

definition isdigit :: "char \<Rightarrow> bool" where
  "isdigit c = (CHR ''0'' \<le> c \<and> c \<le> CHR ''9'')"

definition digit_value :: "char \<Rightarrow> nat" where
  "digit_value c = of_char c - 48"

text \<open>The digits after a first digit; the accumulator is the value read so far.\<close>

fun more_digits :: "string \<Rightarrow> nat \<Rightarrow> nat option" where
  "more_digits [] acc = Some acc"
| "more_digits [c] acc = (if isdigit c then Some (10 * acc + digit_value c) else None)"
| "more_digits (c # d # rest) acc =
     (if isdigit c then more_digits (d # rest) (10 * acc + digit_value c)
      else if c = CHR ''_'' \<and> isdigit d then more_digits rest (10 * acc + digit_value d)
      else None)"

definition unsigned_literal :: "string \<Rightarrow> nat option" where
  "unsigned_literal s =
     (case s of [] \<Rightarrow> None
      | c # cs \<Rightarrow> if isdigit c then more_digits cs (digit_value c) else None)"

definition int_space :: "char \<Rightarrow> bool" where
  "int_space c =
     (c \<in> set [CHR 0x09, CHR 0x0A, CHR 0x0B, CHR 0x0C, CHR 0x0D, CHR 0x20, CHR 0x85, CHR 0xA0])"

definition py_int :: "string \<Rightarrow> int option" where
  "py_int s =
     (case rev (dropWhile int_space (rev (dropWhile int_space s))) of
        [] \<Rightarrow> None
      | c # cs \<Rightarrow>
          if c = CHR ''-'' then map_option (\<lambda>n. - int n) (unsigned_literal cs)
          else if c = CHR ''+'' then map_option int (unsigned_literal cs)
          else map_option int (unsigned_literal (c # cs)))"

subsection \<open>The data model\<close>

text \<open>The dataclass \<^verbatim>\<open>Instr\<close>: the opcode (upper-cased by the loader) and the
  argument tokens as written.\<close>

record instr =
  op :: string
  args :: "string list"

text \<open>What the program raises.  \<open>ValueError\<close> and \<open>RuntimeError\<close> carry the message the
  source formats; \<open>IntValueError\<close> is the \<^verbatim>\<open>ValueError\<close> raised by \<^verbatim>\<open>int\<close> itself on
  the given token, \<open>IndexError\<close> an index out of range and \<open>KeyError\<close> a missing
  dictionary key.\<close>

datatype error =
    ValueError string
  | RuntimeError string
  | IntValueError string
  | IndexError
  | KeyError string

text \<open>What the program prints: \<open>TimeLine v\<close> is the line \<^verbatim>\<open>TIME: v\<close> written by
  \<^verbatim>\<open>PRINT\<close>, \<open>Beep\<close> the line \<^verbatim>\<open>BEEEEEEP!\<close> written by \<^verbatim>\<open>HALT\<close>.\<close>

datatype event = TimeLine int | Beep

text \<open>The fields of \<^verbatim>\<open>MicrowaveVM\<close>, and the lines printed so far.\<close>

record vm =
  registers :: "string \<rightharpoonup> int"
  program :: "instr list"
  labels :: "string \<rightharpoonup> int"
  pc :: int
  halted :: bool
  steps :: int
  stdout :: "event list"

text \<open>A method mutates the machine in place, and an exception leaves the mutations made
  before it: both ways out of a method carry the machine.\<close>

datatype outcome = Returned vm | Raised error vm

text \<open>\<^verbatim>\<open>__init__\<close>.\<close>

definition init_vm :: vm where
  "init_vm =
     \<lparr>registers = [''TIME'' \<mapsto> 0, ''POWER'' \<mapsto> 0], program = [], labels = Map.empty,
      pc = 0, halted = False, steps = 0, stdout = []\<rparr>"

subsection \<open>The loader\<close>

text \<open>Line normalization, \<^verbatim>\<open>raw.split(';', 1)[0].split('#', 1)[0].strip()\<close>, written
  the same way in both passes.\<close>

definition normalize_line :: "string \<Rightarrow> string" where
  "normalize_line raw = strip (split_first (CHR ''#'') (split_first (CHR '';'') raw))"

text \<open>First pass: the loop over the lines, with the slot counter \<open>idx\<close> and the label
  table it fills.  A raise leaves the table as filled so far.\<close>

fun first_pass ::
  "string list \<Rightarrow> int \<Rightarrow> (string \<rightharpoonup> int) \<Rightarrow> error option \<times> (string \<rightharpoonup> int)" where
  "first_pass [] idx labs = (None, labs)"
| "first_pass (raw # rest) idx labs =
     (let line = normalize_line raw in
      if line = [] then first_pass rest idx labs
      else if endswith_colon line then
        (let label = strip (butlast line) in
         if label = [] then (Some (ValueError ''Empty label definition.''), labs)
         else if labs label \<noteq> None then (Some (ValueError (''Duplicate label: '' @ label)), labs)
         else first_pass rest idx (labs(label \<mapsto> idx)))
      else first_pass rest (idx + 1) labs)"

definition is_register :: "string \<Rightarrow> bool" where
  "is_register tok = (upper tok = ''TIME'' \<or> upper tok = ''POWER'')"

text \<open>Second pass, the body of the loop for one instruction line: tokenize, validate,
  and build the \<^verbatim>\<open>Instr\<close> to append.\<close>

definition parse_instr :: "string \<Rightarrow> error + instr" where
  "parse_instr line =
     (case split_ws (replace_commas line) of
        [] \<Rightarrow> Inl IndexError
      | tok # as \<Rightarrow>
          (let opc = upper tok in
           if opc = ''SET'' then
             (if length as \<noteq> 2 then Inl (ValueError (''SET expects 2 args: '' @ line))
              else if \<not> is_register (as ! 0)
                then Inl (ValueError (''Unknown register in SET: '' @ as ! 0))
              else if py_int (as ! 1) = None
                then Inl (ValueError (''SET value must be integer: '' @ as ! 1))
              else Inr \<lparr>op = opc, args = as\<rparr>)
           else if opc = ''INC'' then
             (if length as \<noteq> 1 \<or> \<not> is_register (as ! 0)
                then Inl (ValueError (''INC expects register (TIME/POWER): '' @ line))
              else Inr \<lparr>op = opc, args = as\<rparr>)
           else if opc = ''DECJZ'' then
             (if length as \<noteq> 2 \<or> \<not> is_register (as ! 0)
                then Inl (ValueError (''DECJZ expects register and label: '' @ line))
              else Inr \<lparr>op = opc, args = as\<rparr>)
           else if opc = ''GOTO'' then
             (if length as \<noteq> 1 then Inl (ValueError (''GOTO expects 1 label: '' @ line))
              else Inr \<lparr>op = opc, args = as\<rparr>)
           else if opc = ''PRINT'' then
             (if length as \<noteq> 0 then Inl (ValueError (''PRINT takes no args: '' @ line))
              else Inr \<lparr>op = opc, args = as\<rparr>)
           else if opc = ''HALT'' then
             (if length as \<noteq> 0 then Inl (ValueError (''HALT takes no args: '' @ line))
              else Inr \<lparr>op = opc, args = as\<rparr>)
           else Inl (ValueError (''Unknown opcode: '' @ opc))))"

text \<open>Second pass: the loop over the same lines, appending to the program.  A raise
  leaves the instructions appended so far.\<close>

fun second_pass :: "string list \<Rightarrow> instr list \<Rightarrow> error option \<times> instr list" where
  "second_pass [] prog = (None, prog)"
| "second_pass (raw # rest) prog =
     (let line = normalize_line raw in
      if line = [] \<or> endswith_colon line then second_pass rest prog
      else (case parse_instr line of
              Inl e \<Rightarrow> (Some e, prog)
            | Inr i \<Rightarrow> second_pass rest (prog @ [i])))"

text \<open>\<^verbatim>\<open>load_program\<close>: clear and rewind, then the two passes over the lines.\<close>

definition load_program :: "vm \<Rightarrow> string \<Rightarrow> outcome" where
  "load_program vm source =
     (let vm0 = vm\<lparr>program := [], labels := Map.empty, pc := 0, halted := False, steps := 0\<rparr>;
          lns = splitlines source
      in case first_pass lns 0 (labels vm0) of
           (Some e, labs) \<Rightarrow> Raised e (vm0\<lparr>labels := labs\<rparr>)
         | (None, labs) \<Rightarrow>
             (let vm1 = vm0\<lparr>labels := labs\<rparr>
              in case second_pass lns (program vm1) of
                   (Some e, prog) \<Rightarrow> Raised e (vm1\<lparr>program := prog\<rparr>)
                 | (None, prog) \<Rightarrow> Returned (vm1\<lparr>program := prog\<rparr>)))"

subsection \<open>Execution\<close>

text \<open>\<^verbatim>\<open>self.registers.get(r, 0)\<close>.\<close>

definition reg_get :: "(string \<rightharpoonup> int) \<Rightarrow> string \<Rightarrow> int" where
  "reg_get regs r = (case regs r of None \<Rightarrow> 0 | Some v \<Rightarrow> v)"

text \<open>\<^verbatim>\<open>step\<close>.  An opcode that is none of the six only counts the step.\<close>

definition step :: "vm \<Rightarrow> outcome" where
  "step vm =
     (if halted vm then Returned vm
      else if \<not> (0 \<le> pc vm \<and> pc vm < int (length (program vm)))
        then Returned (vm\<lparr>halted := True\<rparr>)
      else
        (let instr = program vm ! nat (pc vm);
             vm1 = vm\<lparr>steps := steps vm + 1\<rparr>
         in
         if op instr = ''SET'' then
           (case args instr of
              r # a # _ \<Rightarrow>
                (case py_int a of
                   None \<Rightarrow> Raised (IntValueError a) vm1
                 | Some v \<Rightarrow>
                     Returned (vm1\<lparr>registers := (registers vm1)(upper r \<mapsto> v),
                                    pc := pc vm1 + 1\<rparr>))
            | _ \<Rightarrow> Raised IndexError vm1)
         else if op instr = ''INC'' then
           (case args instr of
              r # _ \<Rightarrow>
                Returned (vm1\<lparr>registers :=
                                 (registers vm1)(upper r \<mapsto> reg_get (registers vm1) (upper r) + 1),
                               pc := pc vm1 + 1\<rparr>)
            | [] \<Rightarrow> Raised IndexError vm1)
         else if op instr = ''DECJZ'' then
           (case args instr of
              r # target # _ \<Rightarrow>
                if reg_get (registers vm1) (upper r) = 0 then
                  (case labels vm1 target of
                     None \<Rightarrow> Raised (ValueError (''Unknown label: '' @ target)) vm1
                   | Some i \<Rightarrow> Returned (vm1\<lparr>pc := i\<rparr>))
                else
                  (case registers vm1 (upper r) of
                     None \<Rightarrow> Raised (KeyError (upper r)) vm1
                   | Some v \<Rightarrow>
                       Returned (vm1\<lparr>registers := (registers vm1)(upper r \<mapsto> v - 1),
                                      pc := pc vm1 + 1\<rparr>))
            | _ \<Rightarrow> Raised IndexError vm1)
         else if op instr = ''GOTO'' then
           (case args instr of
              target # _ \<Rightarrow>
                (case labels vm1 target of
                   None \<Rightarrow> Raised (ValueError (''Unknown label: '' @ target)) vm1
                 | Some i \<Rightarrow> Returned (vm1\<lparr>pc := i\<rparr>))
            | [] \<Rightarrow> Raised IndexError vm1)
         else if op instr = ''PRINT'' then
           Returned (vm1\<lparr>stdout := stdout vm1 @ [TimeLine (reg_get (registers vm1) ''TIME'')],
                          pc := pc vm1 + 1\<rparr>)
         else if op instr = ''HALT'' then
           Returned (vm1\<lparr>stdout := stdout vm1 @ [Beep], halted := True\<rparr>)
         else Returned vm1))"

text \<open>\<^verbatim>\<open>run\<close>: the \<^verbatim>\<open>while\<close> loop may go on forever, so not returning is the value
  \<open>None\<close>.\<close>

partial_function (option) run :: "int option \<Rightarrow> vm \<Rightarrow> outcome option" where
  "run max_steps vm =
     (if halted vm then Some (Returned vm)
      else if (case max_steps of None \<Rightarrow> False | Some m \<Rightarrow> steps vm \<ge> m)
        then Some (Raised (RuntimeError ''Step limit reached (possible infinite loop).'') vm)
      else (case step vm of
              Raised e vm' \<Rightarrow> Some (Raised e vm')
            | Returned vm' \<Rightarrow> run max_steps vm'))"

declare run.simps [code]

text \<open>\<^verbatim>\<open>reset_registers\<close>.\<close>

definition reset_registers :: "vm \<Rightarrow> int \<Rightarrow> int \<Rightarrow> vm" where
  "reset_registers vm TIME POWER =
     vm\<lparr>registers := (registers vm)(''TIME'' \<mapsto> TIME, ''POWER'' \<mapsto> POWER),
        pc := 0, halted := False, steps := 0\<rparr>"

subsection \<open>Executing a number of steps\<close>

text \<open>\<open>step_n n\<close> calls \<^const>\<open>step\<close> \<open>n\<close> times in a row and stops at the first raise.  It is
  not a method of the source: it states what a machine does within \<open>n\<close> steps.\<close>

fun step_n :: "nat \<Rightarrow> vm \<Rightarrow> outcome" where
  "step_n 0 vm = Returned vm"
| "step_n (Suc n) vm =
     (case step vm of Returned vm' \<Rightarrow> step_n n vm' | Raised e vm' \<Rightarrow> Raised e vm')"

text \<open>The machine a method leaves behind, whichever way it ends.\<close>

fun machine_of :: "outcome \<Rightarrow> vm" where
  "machine_of (Returned vm) = vm"
| "machine_of (Raised e vm) = vm"

subsection \<open>The comment rule in the words of the specification\<close>

text \<open>The text of a line before the first occurrence of either comment character.\<close>

definition before_first_delimiter :: "string \<Rightarrow> string" where
  "before_first_delimiter raw = takeWhile (\<lambda>c. c \<noteq> CHR '';'' \<and> c \<noteq> CHR ''#'') raw"

subsection \<open>The kinds of lines\<close>

text \<open>The tests both passes make on a raw line, named: a label definition line is one
  whose normalized text ends in a colon, an instruction line one whose normalized text is
  not empty and does not end in a colon.  \<open>label_name\<close> is the name a label definition
  line defines, and \<open>slot_count\<close> the number of instruction lines of a list of lines, that
  is, the number of instruction slots they fill.\<close>

definition label_line :: "string \<Rightarrow> bool" where
  "label_line raw = endswith_colon (normalize_line raw)"

definition instr_line :: "string \<Rightarrow> bool" where
  "instr_line raw = (normalize_line raw \<noteq> [] \<and> \<not> endswith_colon (normalize_line raw))"

definition label_name :: "string \<Rightarrow> string" where
  "label_name raw = strip (butlast (normalize_line raw))"

definition slot_count :: "string list \<Rightarrow> nat" where
  "slot_count ls = length (filter instr_line ls)"

section \<open>Properties of the execution engine\<close>

subsection \<open>Auxiliary facts\<close>

lemma step_halted: "halted vm \<Longrightarrow> step vm = Returned vm"
  by (simp add: step_def)

lemma step_counts:
  "step vm = Returned vm' \<Longrightarrow> \<not> halted vm' \<Longrightarrow> \<not> halted vm \<and> steps vm' = steps vm + 1"
  by (auto simp: step_def Let_def split: if_splits list.splits option.splits)

lemma step_n_halted: "halted vm \<Longrightarrow> step_n n vm = Returned vm"
  by (induction n) (simp_all add: step_halted)

lemma run_limit:
  "step_n n vm = Returned vm' \<Longrightarrow> \<not> halted vm' \<Longrightarrow> m = steps vm + int n \<Longrightarrow>
   run (Some m) vm =
     Some (Raised (RuntimeError ''Step limit reached (possible infinite loop).'') vm') \<and>
   steps vm' = m"
proof (induction n arbitrary: vm)
  case 0
  then show ?case by (simp add: run.simps)
next
  case (Suc n)
  from Suc.prems(1) obtain v where sv: "step vm = Returned v"
    and rest: "step_n n v = Returned vm'"
    by (auto split: outcome.splits)
  have nh_v: "\<not> halted v"
  proof
    assume hv: "halted v"
    then have "step_n n v = Returned v" by (rule step_n_halted)
    with rest Suc.prems(2) hv show False by simp
  qed
  from step_counts [OF sv nh_v] have nh: "\<not> halted vm" and st: "steps v = steps vm + 1"
    by simp_all
  from Suc.prems(3) st have m: "m = steps v + int n" by simp
  have "run (Some m) vm = run (Some m) v"
    using nh sv Suc.prems(3) by (subst run.simps) simp
  with Suc.IH [OF rest Suc.prems(2) m] show ?case by simp
qed

subsection \<open>DECJZ\<close>

text \<open>
  C2.  A single step on a \<^verbatim>\<open>DECJZ r L\<close> instruction: when the register holds 0, the
  registers are left as they are (so the register stays at 0) and the program counter
  becomes the index the label table gives for \<open>L\<close>, or the step raises the unknown-label
  \<^verbatim>\<open>ValueError\<close> when \<open>L\<close> is not in the table; when the register holds \<open>n > 0\<close>, it
  becomes \<open>n - 1\<close> and the program counter advances by exactly 1.
\<close>

theorem step_decjz:
  assumes "\<not> halted vm" and "0 \<le> pc vm" and "pc vm < int (length (program vm))"
    and "program vm ! nat (pc vm) = \<lparr>op = ''DECJZ'', args = [r, L]\<rparr>"
  shows "(reg_get (registers vm) (upper r) = 0 \<and> labels vm L = Some i \<longrightarrow>
            step vm = Returned (vm\<lparr>steps := steps vm + 1, pc := i\<rparr>)) \<and>
         (reg_get (registers vm) (upper r) = 0 \<and> labels vm L = None \<longrightarrow>
            step vm = Raised (ValueError (''Unknown label: '' @ L)) (vm\<lparr>steps := steps vm + 1\<rparr>)) \<and>
         (reg_get (registers vm) (upper r) = n \<and> 0 < n \<longrightarrow>
            step vm = Returned (vm\<lparr>steps := steps vm + 1,
                                   registers := (registers vm)(upper r \<mapsto> n - 1),
                                   pc := pc vm + 1\<rparr>))"
  using assms by (auto simp: step_def Let_def reg_get_def split: option.splits)

theorem step_decjz_witness:
  "step (init_vm\<lparr>program := [\<lparr>op = ''DECJZ'', args = [''time'', ''end'']\<rparr>], labels := [''end'' \<mapsto> 1]\<rparr>) =
     Returned (init_vm\<lparr>program := [\<lparr>op = ''DECJZ'', args = [''time'', ''end'']\<rparr>],
                       labels := [''end'' \<mapsto> 1], steps := 1, pc := 1\<rparr>) \<and>
   step (init_vm\<lparr>program := [\<lparr>op = ''DECJZ'', args = [''time'', ''end'']\<rparr>]\<rparr>) =
     Raised (ValueError ''Unknown label: end'')
       (init_vm\<lparr>program := [\<lparr>op = ''DECJZ'', args = [''time'', ''end'']\<rparr>], steps := 1\<rparr>) \<and>
   step (init_vm\<lparr>program := [\<lparr>op = ''DECJZ'', args = [''time'', ''end'']\<rparr>],
                 registers := [''TIME'' \<mapsto> 2, ''POWER'' \<mapsto> 0]\<rparr>) =
     Returned (init_vm\<lparr>program := [\<lparr>op = ''DECJZ'', args = [''time'', ''end'']\<rparr>],
                       registers := [''TIME'' \<mapsto> 1, ''POWER'' \<mapsto> 0], steps := 1, pc := 1\<rparr>)"
proof -
  have up: "upper ''time'' = ''TIME''"
    by (simp add: upper_def upper_char_def char_of_def bit_Suc_0_iff)
  show ?thesis
    using
      step_decjz [of "init_vm\<lparr>program := [\<lparr>op = ''DECJZ'', args = [''time'', ''end'']\<rparr>],
                             labels := [''end'' \<mapsto> 1]\<rparr>" "''time''" "''end''" 1 1]
      step_decjz [of "init_vm\<lparr>program := [\<lparr>op = ''DECJZ'', args = [''time'', ''end'']\<rparr>]\<rparr>"
                     "''time''" "''end''" 1 1]
      step_decjz [of "init_vm\<lparr>program := [\<lparr>op = ''DECJZ'', args = [''time'', ''end'']\<rparr>],
                             registers := [''TIME'' \<mapsto> 2, ''POWER'' \<mapsto> 0]\<rparr>"
                     "''time''" "''end''" 1 2]
    by (simp add: init_vm_def reg_get_def up fun_upd_twist)
qed

subsection \<open>The two ways to halt\<close>

text \<open>
  C4.  On a machine \<open>a\<close> that is not halted, a step with the program counter outside
  \<open>[0, len(program))\<close> only sets the halted flag: nothing is printed and the step counter
  is not incremented.  On a machine \<open>b\<close> that is not halted, a step on a \<^verbatim>\<open>HALT\<close>
  instruction sets the halted flag too, counts the step and prints the halt line.  From
  the same output so far, the output afterwards tells the two apart.
\<close>

theorem halt_modes:
  assumes "\<not> halted a" and "\<not> (0 \<le> pc a \<and> pc a < int (length (program a)))"
    and "\<not> halted b" and "0 \<le> pc b" and "pc b < int (length (program b))"
    and "op (program b ! nat (pc b)) = ''HALT''"
  shows "step a = Returned (a\<lparr>halted := True\<rparr>) \<and>
         halted (machine_of (step a)) \<and>
         stdout (machine_of (step a)) = stdout a \<and>
         steps (machine_of (step a)) = steps a \<and>
         step b = Returned (b\<lparr>steps := steps b + 1, stdout := stdout b @ [Beep],
                              halted := True\<rparr>) \<and>
         halted (machine_of (step b)) \<and>
         stdout (machine_of (step b)) = stdout b @ [Beep] \<and>
         steps (machine_of (step b)) = steps b + 1 \<and>
         (stdout a = stdout b \<longrightarrow> stdout (machine_of (step a)) \<noteq> stdout (machine_of (step b)))"
  using assms by (auto simp: step_def Let_def)

theorem halt_modes_witness:
  "step init_vm = Returned (init_vm\<lparr>halted := True\<rparr>) \<and>
   step (init_vm\<lparr>program := [\<lparr>op = ''HALT'', args = []\<rparr>]\<rparr>) =
     Returned (init_vm\<lparr>program := [\<lparr>op = ''HALT'', args = []\<rparr>], steps := 1,
                       stdout := [Beep], halted := True\<rparr>) \<and>
   stdout (machine_of (step init_vm)) \<noteq>
     stdout (machine_of (step (init_vm\<lparr>program := [\<lparr>op = ''HALT'', args = []\<rparr>]\<rparr>)))"
  using halt_modes [of init_vm "init_vm\<lparr>program := [\<lparr>op = ''HALT'', args = []\<rparr>]\<rparr>"]
  by (simp add: init_vm_def)

subsection \<open>The step budget\<close>

text \<open>
  C5.  Take a machine whose step counter is 0, as it is after a load, and a budget \<open>B\<close>.
  If \<open>B\<close> steps can be executed, each returning normally, and the machine is still not
  halted after them, then \<^verbatim>\<open>run(max_steps=B)\<close> returns by raising the step-limit
  \<^verbatim>\<open>RuntimeError\<close>, and the step counter of the machine at that moment is \<open>B\<close>.
\<close>

theorem run_step_budget:
  assumes "steps vm = 0" and "step_n B vm = Returned vm'" and "\<not> halted vm'"
  shows "run (Some (int B)) vm =
           Some (Raised (RuntimeError ''Step limit reached (possible infinite loop).'') vm') \<and>
         steps vm' = int B"
  using run_limit [OF assms(2) assms(3), of "int B"] assms(1) by simp

theorem run_step_budget_witness:
  "run (Some 3) (init_vm\<lparr>program := [\<lparr>op = ''GOTO'', args = [''loop'']\<rparr>], labels := [''loop'' \<mapsto> 0]\<rparr>) =
     Some (Raised (RuntimeError ''Step limit reached (possible infinite loop).'')
            (init_vm\<lparr>program := [\<lparr>op = ''GOTO'', args = [''loop'']\<rparr>],
                     labels := [''loop'' \<mapsto> 0], steps := 3\<rparr>))"
proof -
  let ?vm = "init_vm\<lparr>program := [\<lparr>op = ''GOTO'', args = [''loop'']\<rparr>], labels := [''loop'' \<mapsto> 0]\<rparr>"
  have s: "step_n 3 ?vm = Returned (?vm\<lparr>steps := 3\<rparr>)"
    by (simp add: numeral_3_eq_3 step_def init_vm_def)
  have "steps ?vm = 0" and "\<not> halted (?vm\<lparr>steps := 3\<rparr>)"
    by (simp_all add: init_vm_def)
  from run_step_budget [OF this(1) s this(2)] show ?thesis by simp
qed

subsection \<open>Halted is absorbing\<close>

text \<open>
  C6.  On a machine whose halted flag is set, a step returns normally and the machine
  it leaves is the machine it found: registers, program, label table, program counter,
  halted flag, step counter and output are all unchanged.
\<close>

theorem halted_absorbing:
  assumes "halted vm"
  shows "step vm = Returned vm"
  using assms by (simp add: step_def)

theorem halted_absorbing_witness:
  "halted (init_vm\<lparr>halted := True\<rparr>) \<and>
   step (init_vm\<lparr>halted := True\<rparr>) = Returned (init_vm\<lparr>halted := True\<rparr>)"
  using halted_absorbing [of "init_vm\<lparr>halted := True\<rparr>"] by simp

subsection \<open>Reset\<close>

text \<open>
  C8.  \<^verbatim>\<open>reset_registers\<close> stores the two seed values in \<^verbatim>\<open>TIME\<close> and \<^verbatim>\<open>POWER\<close>, sets the
  program counter to 0, the halted flag to false and the step counter to 0, and leaves
  the program and the label table as they were.
\<close>

theorem reset_registers_effect:
  "registers (reset_registers vm t p) ''TIME'' = Some t \<and>
   registers (reset_registers vm t p) ''POWER'' = Some p \<and>
   registers (reset_registers vm t p) = (registers vm)(''TIME'' \<mapsto> t, ''POWER'' \<mapsto> p) \<and>
   pc (reset_registers vm t p) = 0 \<and>
   \<not> halted (reset_registers vm t p) \<and>
   steps (reset_registers vm t p) = 0 \<and>
   program (reset_registers vm t p) = program vm \<and>
   labels (reset_registers vm t p) = labels vm \<and>
   stdout (reset_registers vm t p) = stdout vm"
  by (simp add: reset_registers_def)

section \<open>Properties of the loader\<close>

subsection \<open>Auxiliary facts\<close>

lemmas str_simps = splitlines_def islinebreak_def strip_def isspace_def split_first_def
  split_ws_def replace_commas_def endswith_colon_def upper_def upper_char_def char_of_def
  bit_Suc_0_iff is_register_def py_int_def unsigned_literal_def isdigit_def digit_value_def
  int_space_def normalize_line_def

lemma normalize_first_delimiter: "normalize_line raw = strip (before_first_delimiter raw)"
proof -
  have "takeWhile (\<lambda>c. c \<noteq> CHR ''#'') (takeWhile (\<lambda>c. c \<noteq> CHR '';'') raw) =
        takeWhile (\<lambda>c. c \<noteq> CHR '';'' \<and> c \<noteq> CHR ''#'') raw"
    by (induction raw) simp_all
  then show ?thesis
    by (simp add: normalize_line_def split_first_def before_first_delimiter_def)
qed

lemma first_pass_normalized:
  "map normalize_line ls = map normalize_line ls' \<Longrightarrow> first_pass ls idx labs = first_pass ls' idx labs"
proof (induction ls arbitrary: ls' idx labs)
  case Nil
  then show ?case by simp
next
  case (Cons raw rest)
  then obtain raw' rest' where ls': "ls' = raw' # rest'" and n: "normalize_line raw = normalize_line raw'"
    and r: "map normalize_line rest = map normalize_line rest'"
    by (cases ls') auto
  have "\<And>i l. first_pass rest i l = first_pass rest' i l"
    using Cons.IH [OF r] by blast
  then show ?case unfolding ls' by (simp only: first_pass.simps n)
qed

lemma second_pass_normalized:
  "map normalize_line ls = map normalize_line ls' \<Longrightarrow> second_pass ls prog = second_pass ls' prog"
proof (induction ls arbitrary: ls' prog)
  case Nil
  then show ?case by simp
next
  case (Cons raw rest)
  then obtain raw' rest' where ls': "ls' = raw' # rest'" and n: "normalize_line raw = normalize_line raw'"
    and r: "map normalize_line rest = map normalize_line rest'"
    by (cases ls') auto
  show ?case by (simp add: ls' n Let_def Cons.IH [OF r] split: sum.splits)
qed

subsection \<open>Comments\<close>

text \<open>
  C7.  The normalized line is the text before the first \<^verbatim>\<open>;\<close> or \<^verbatim>\<open>#\<close> of the raw line,
  whichever comes first and wherever it stands, trimmed of surrounding whitespace; and
  each of the two passes depends on the raw lines through that text only: two lists of
  lines that agree on it give the same result in label collection and in instruction
  parsing.
\<close>

theorem comment_stripping:
  "normalize_line raw = strip (before_first_delimiter raw) \<and>
   (map (\<lambda>l. strip (before_first_delimiter l)) ls = map (\<lambda>l. strip (before_first_delimiter l)) ls' \<longrightarrow>
      first_pass ls idx labs = first_pass ls' idx labs \<and>
      second_pass ls prog = second_pass ls' prog)"
proof -
  have "(\<lambda>l. strip (before_first_delimiter l)) = normalize_line"
    by (rule ext) (simp add: normalize_first_delimiter)
  then show ?thesis
    by (auto simp: normalize_first_delimiter [symmetric] intro: first_pass_normalized second_pass_normalized)
qed

theorem comment_stripping_witness:
  "normalize_line ''INC TI#ME ; x'' = ''INC TI'' \<and>
   normalize_line ''end: ; a # b'' = ''end:'' \<and>
   first_pass [''end: ; a # b'', ''HALT;''] 0 Map.empty = first_pass [''end:#;;'', '' HALT # ;''] 0 Map.empty \<and>
   second_pass [''end: ; a # b'', ''HALT;''] [] = second_pass [''end:#;;'', '' HALT # ;''] []"
proof -
  have "map (\<lambda>l. strip (before_first_delimiter l)) [''end: ; a # b'', ''HALT;''] = 
     map (\<lambda>l. strip (before_first_delimiter l)) [''end:#;;'', '' HALT # ;'']"
    by (simp add: before_first_delimiter_def strip_def isspace_def)
  with comment_stripping [of "''INC TI#ME ; x''" "[''end: ; a # b'', ''HALT;'']" "[''end:#;;'', '' HALT # ;'']" 0 Map.empty "[]"]
    comment_stripping [of "''end: ; a # b''" "[]" "[]" 0 Map.empty "[]"]
  show ?thesis by (simp add: before_first_delimiter_def strip_def isspace_def)
qed

subsection \<open>Label definition lines\<close>

text \<open>
  C10.  A line whose normalized text ends in \<^verbatim>\<open>:\<close> is a label definition in both
  passes, whatever stands before the colon: the first pass defines (or rejects as empty
  or duplicate) the label named by the trimmed text before the colon and does not
  advance the slot counter, and the second pass skips the line without parsing it.  So
  \<^verbatim>\<open>GOTO x:\<close> defines the label \<^verbatim>\<open>GOTO x\<close>.
\<close>

theorem colon_line_is_label:
  assumes "normalize_line raw = body @ '':''"
  shows "first_pass (raw # rest) idx labs =
           (if strip body = [] then (Some (ValueError ''Empty label definition.''), labs)
            else if labs (strip body) \<noteq> None
              then (Some (ValueError (''Duplicate label: '' @ strip body)), labs)
            else first_pass rest idx (labs(strip body \<mapsto> idx))) \<and>
         second_pass (raw # rest) prog = second_pass rest prog"
  using assms by (simp add: endswith_colon_def Let_def)

theorem colon_line_is_label_witness:
  "normalize_line '' GOTO x: ; not a jump'' = ''GOTO x'' @ '':'' \<and>
   first_pass ['' GOTO x: ; not a jump'', ''HALT''] 0 Map.empty = (None, [''GOTO x'' \<mapsto> 0]) \<and>
   second_pass ['' GOTO x: ; not a jump'', ''HALT''] [] = (None, [\<lparr>op = ''HALT'', args = []\<rparr>]) \<and>
   load_program init_vm ''GOTO x:'' = Returned (init_vm\<lparr>labels := [''GOTO x'' \<mapsto> 0]\<rparr>)"
proof -
  have n: "normalize_line '' GOTO x: ; not a jump'' = ''GOTO x'' @ '':''"
    by (simp add: normalize_line_def split_first_def strip_def isspace_def)
  have h: "normalize_line ''HALT'' = ''HALT''"
    by (simp add: normalize_line_def split_first_def strip_def isspace_def)
  have p: "parse_instr ''HALT'' = Inr \<lparr>op = ''HALT'', args = []\<rparr>"
    by (simp add: parse_instr_def str_simps)
  have l: "load_program init_vm ''GOTO x:'' = Returned (init_vm\<lparr>labels := [''GOTO x'' \<mapsto> 0]\<rparr>)"
    by (simp add: load_program_def init_vm_def str_simps)
  from colon_line_is_label [OF n, of "[''HALT'']" 0 Map.empty "[]"] n l
  show ?thesis by (simp add: h p strip_def isspace_def endswith_colon_def)
qed

subsection \<open>Negative register values\<close>

text \<open>
  C9.  When an instruction line has the three tokens \<^verbatim>\<open>SET\<close> (in any case), a register
  name and a literal that \<^verbatim>\<open>int\<close> reads as a negative value \<open>v\<close>, the loader's validation
  accepts it and builds the instruction; executing that instruction stores \<open>v\<close> in the
  register and advances the program counter by 1; and a \<^verbatim>\<open>DECJZ\<close> on a register that
  holds a negative value \<open>v\<close> does not jump: the register becomes \<open>v - 1\<close> and the program
  counter advances by 1.  Registers are therefore not kept non-negative.
\<close>

theorem negative_registers:
  assumes "split_ws (replace_commas line) = [tok, r, lit]"
    and "upper tok = ''SET''" and "is_register r"
    and "py_int lit = Some v" and "v < 0"
  shows "parse_instr line = Inr \<lparr>op = ''SET'', args = [r, lit]\<rparr> \<and>
         (\<not> halted vm \<and> 0 \<le> pc vm \<and> pc vm < int (length (program vm)) \<and>
          program vm ! nat (pc vm) = \<lparr>op = ''SET'', args = [r, lit]\<rparr> \<longrightarrow>
            step vm = Returned (vm\<lparr>steps := steps vm + 1,
                                   registers := (registers vm)(upper r \<mapsto> v),
                                   pc := pc vm + 1\<rparr>)) \<and>
         (\<not> halted vm \<and> 0 \<le> pc vm \<and> pc vm < int (length (program vm)) \<and>
          program vm ! nat (pc vm) = \<lparr>op = ''DECJZ'', args = [r', L]\<rparr> \<and>
          registers vm (upper r') = Some v \<longrightarrow>
            step vm = Returned (vm\<lparr>steps := steps vm + 1,
                                   registers := (registers vm)(upper r' \<mapsto> v - 1),
                                   pc := pc vm + 1\<rparr>))"
  using assms by (auto simp: parse_instr_def step_def Let_def reg_get_def)

theorem negative_registers_witness:
  "load_program init_vm ''SET time, -5\<newline>DECJZ TIME done'' =
     Returned (init_vm\<lparr>program := [\<lparr>op = ''SET'', args = [''time'', ''-5'']\<rparr>,
                                   \<lparr>op = ''DECJZ'', args = [''TIME'', ''done'']\<rparr>]\<rparr>) \<and>
   step (init_vm\<lparr>program := [\<lparr>op = ''SET'', args = [''time'', ''-5'']\<rparr>,
                             \<lparr>op = ''DECJZ'', args = [''TIME'', ''done'']\<rparr>]\<rparr>) =
     Returned (init_vm\<lparr>program := [\<lparr>op = ''SET'', args = [''time'', ''-5'']\<rparr>,
                                   \<lparr>op = ''DECJZ'', args = [''TIME'', ''done'']\<rparr>],
                       steps := 1, registers := [''TIME'' \<mapsto> - 5, ''POWER'' \<mapsto> 0], pc := 1\<rparr>) \<and>
   step (init_vm\<lparr>program := [\<lparr>op = ''SET'', args = [''time'', ''-5'']\<rparr>,
                             \<lparr>op = ''DECJZ'', args = [''TIME'', ''done'']\<rparr>],
                 steps := 1, registers := [''TIME'' \<mapsto> - 5, ''POWER'' \<mapsto> 0], pc := 1\<rparr>) =
     Returned (init_vm\<lparr>program := [\<lparr>op = ''SET'', args = [''time'', ''-5'']\<rparr>,
                                   \<lparr>op = ''DECJZ'', args = [''TIME'', ''done'']\<rparr>],
                       steps := 2, registers := [''TIME'' \<mapsto> - 6, ''POWER'' \<mapsto> 0], pc := 2\<rparr>)"
proof -
  let ?prog = "[\<lparr>op = ''SET'', args = [''time'', ''-5'']\<rparr>, \<lparr>op = ''DECJZ'', args = [''TIME'', ''done'']\<rparr>]"
  have t: "split_ws (replace_commas ''SET time, -5'') = [''SET'', ''time'', ''-5'']"
    by (simp add: split_ws_def replace_commas_def isspace_def)
  have u: "upper ''SET'' = ''SET''" "upper ''time'' = ''TIME''" "upper ''TIME'' = ''TIME''"
    by (simp_all add: upper_def upper_char_def char_of_def bit_Suc_0_iff)
  have r: "is_register ''time''" by (simp add: is_register_def u)
  have i: "py_int ''-5'' = Some (- 5)" by (simp add: str_simps)
  have l: "load_program init_vm ''SET time, -5\<newline>DECJZ TIME done'' = Returned (init_vm\<lparr>program := ?prog\<rparr>)"
    by (simp add: load_program_def parse_instr_def init_vm_def str_simps)
  note a = negative_registers [OF t u(1) r i, of "init_vm\<lparr>program := ?prog\<rparr>" "''TIME''" "''done''"]
  note b = negative_registers [OF t u(1) r i,
      of "init_vm\<lparr>program := ?prog, steps := 1, registers := [''TIME'' \<mapsto> - 5, ''POWER'' \<mapsto> 0], pc := 1\<rparr>"
         "''TIME''" "''done''"]
  from a b l show ?thesis by (simp add: init_vm_def u fun_upd_twist)
qed

subsection \<open>Failed loads\<close>

lemma first_pass_failure:
  "first_pass ls idx labs = (Some e, labs') \<Longrightarrow>
   \<exists>k<length ls.
     first_pass (take k ls) idx labs = (None, labs') \<and>
     endswith_colon (normalize_line (ls ! k)) \<and>
     (strip (butlast (normalize_line (ls ! k))) = [] \<and> e = ValueError ''Empty label definition.'' \<or>
      labs' (strip (butlast (normalize_line (ls ! k)))) \<noteq> None \<and>
      e = ValueError (''Duplicate label: '' @ strip (butlast (normalize_line (ls ! k)))))"
proof (induction ls arbitrary: idx labs)
  case Nil
  then show ?case by simp
next
  case (Cons raw rest)
  let ?line = "normalize_line raw"
  let ?label = "strip (butlast ?line)"
  consider (blank) "?line = []"
    | (here) "?line \<noteq> []" "endswith_colon ?line" "?label = [] \<or> labs ?label \<noteq> None"
    | (label) "?line \<noteq> []" "endswith_colon ?line" "?label \<noteq> []" "labs ?label = None"
    | (code) "?line \<noteq> []" "\<not> endswith_colon ?line"
    by blast
  then show ?case
  proof cases
    case here
    with Cons.prems have "labs' = labs \<and>
       (?label = [] \<and> e = ValueError ''Empty label definition.'' \<or>
        labs ?label \<noteq> None \<and> e = ValueError (''Duplicate label: '' @ ?label))"
      by (auto simp: Let_def split: if_splits)
    with here show ?thesis by (intro exI [of _ 0]) auto
  next
    case blank
    with Cons.prems have "first_pass rest idx labs = (Some e, labs')" by simp
    from Cons.IH [OF this] obtain k where "k < length rest"
      "first_pass (take k rest) idx labs = (None, labs')"
      "endswith_colon (normalize_line (rest ! k))"
      "strip (butlast (normalize_line (rest ! k))) = [] \<and> e = ValueError ''Empty label definition.'' \<or>
       labs' (strip (butlast (normalize_line (rest ! k)))) \<noteq> None \<and>
       e = ValueError (''Duplicate label: '' @ strip (butlast (normalize_line (rest ! k))))"
      by blast
    with blank show ?thesis by (intro exI [of _ "Suc k"]) simp
  next
    case label
    with Cons.prems have "first_pass rest idx (labs(?label \<mapsto> idx)) = (Some e, labs')"
      by (simp add: Let_def)
    from Cons.IH [OF this] obtain k where "k < length rest"
      "first_pass (take k rest) idx (labs(?label \<mapsto> idx)) = (None, labs')"
      "endswith_colon (normalize_line (rest ! k))"
      "strip (butlast (normalize_line (rest ! k))) = [] \<and> e = ValueError ''Empty label definition.'' \<or>
       labs' (strip (butlast (normalize_line (rest ! k)))) \<noteq> None \<and>
       e = ValueError (''Duplicate label: '' @ strip (butlast (normalize_line (rest ! k))))"
      by blast
    with label show ?thesis by (intro exI [of _ "Suc k"]) (simp add: Let_def)
  next
    case code
    with Cons.prems have "first_pass rest (idx + 1) labs = (Some e, labs')"
      by (simp add: Let_def)
    from Cons.IH [OF this] obtain k where "k < length rest"
      "first_pass (take k rest) (idx + 1) labs = (None, labs')"
      "endswith_colon (normalize_line (rest ! k))"
      "strip (butlast (normalize_line (rest ! k))) = [] \<and> e = ValueError ''Empty label definition.'' \<or>
       labs' (strip (butlast (normalize_line (rest ! k)))) \<noteq> None \<and>
       e = ValueError (''Duplicate label: '' @ strip (butlast (normalize_line (rest ! k))))"
      by blast
    with code show ?thesis by (intro exI [of _ "Suc k"]) (simp add: Let_def)
  qed
qed

lemma second_pass_failure:
  "second_pass ls prog = (Some e, prog') \<Longrightarrow>
   \<exists>k<length ls.
     second_pass (take k ls) prog = (None, prog') \<and>
     normalize_line (ls ! k) \<noteq> [] \<and> \<not> endswith_colon (normalize_line (ls ! k)) \<and>
     parse_instr (normalize_line (ls ! k)) = Inl e"
proof (induction ls arbitrary: prog)
  case Nil
  then show ?case by simp
next
  case (Cons raw rest)
  let ?line = "normalize_line raw"
  consider (skip) "?line = [] \<or> endswith_colon ?line"
    | (bad) "?line \<noteq> []" "\<not> endswith_colon ?line" "\<exists>e'. parse_instr ?line = Inl e'"
    | (good) i where "?line \<noteq> []" "\<not> endswith_colon ?line" "parse_instr ?line = Inr i"
    by (cases "parse_instr ?line") auto
  then show ?case
  proof cases
    case skip
    with Cons.prems have "second_pass rest prog = (Some e, prog')" by (auto simp: Let_def)
    from Cons.IH [OF this] obtain k where "k < length rest"
      "second_pass (take k rest) prog = (None, prog')"
      "normalize_line (rest ! k) \<noteq> []" "\<not> endswith_colon (normalize_line (rest ! k))"
      "parse_instr (normalize_line (rest ! k)) = Inl e"
      by blast
    with skip show ?thesis by (intro exI [of _ "Suc k"]) (auto simp: Let_def)
  next
    case bad
    with Cons.prems have "prog' = prog \<and> parse_instr ?line = Inl e"
      by (auto simp: Let_def)
    with bad show ?thesis by (intro exI [of _ 0]) simp
  next
    case good
    with Cons.prems have "second_pass rest (prog @ [i]) = (Some e, prog')"
      by (simp add: Let_def)
    from Cons.IH [OF this] obtain k where "k < length rest"
      "second_pass (take k rest) (prog @ [i]) = (None, prog')"
      "normalize_line (rest ! k) \<noteq> []" "\<not> endswith_colon (normalize_line (rest ! k))"
      "parse_instr (normalize_line (rest ! k)) = Inl e"
      by blast
    with good show ?thesis by (intro exI [of _ "Suc k"]) (simp add: Let_def)
  qed
qed

text \<open>
  C1, as the code has it.  A load that raises has discarded the previous program and
  label table and has rewound the program counter, the halted flag and the step counter;
  registers and output are untouched.  What the machine then holds is what the loader
  had built from the new source when it reached the offending line \<open>k\<close>: on a label error
  (empty or duplicate label) the program is empty and the label table is that of the
  lines before line \<open>k\<close>; on an instruction error the label table is that of the whole
  source and the program holds the instructions of the lines before line \<open>k\<close>.
\<close>

theorem failed_load_state:
  assumes "load_program vm src = Raised e vm'"
  shows "vm' = vm\<lparr>program := program vm', labels := labels vm', pc := 0, halted := False,
                    steps := 0\<rparr> \<and>
         (\<exists>k<length (splitlines src).
            (first_pass (take k (splitlines src)) 0 Map.empty = (None, labels vm') \<and>
             program vm' = [] \<and>
             endswith_colon (normalize_line (splitlines src ! k)) \<and>
             (e = ValueError ''Empty label definition.'' \<or>
              e = ValueError (''Duplicate label: '' @
                    strip (butlast (normalize_line (splitlines src ! k)))))) \<or>
            (first_pass (splitlines src) 0 Map.empty = (None, labels vm') \<and>
             second_pass (take k (splitlines src)) [] = (None, program vm') \<and>
             parse_instr (normalize_line (splitlines src ! k)) = Inl e))"
proof -
  let ?ls = "splitlines src"
  obtain r1 labs where fp: "first_pass ?ls 0 Map.empty = (r1, labs)" by (cases "first_pass ?ls 0 Map.empty")
  show ?thesis
  proof (cases r1)
    case (Some e1)
    with fp assms have e: "e1 = e" and vm': "vm' = vm\<lparr>program := [], labels := labs, pc := 0, halted := False, steps := 0\<rparr>"
      by (auto simp: load_program_def Let_def)
    from first_pass_failure [OF fp [unfolded Some e]] vm' show ?thesis
      by auto
  next
    case None
    obtain r2 prog where sp: "second_pass ?ls [] = (r2, prog)" by (cases "second_pass ?ls []")
    with fp None assms have r2: "r2 = Some e" and vm': "vm' = vm\<lparr>program := prog, labels := labs, pc := 0, halted := False, steps := 0\<rparr>"
      by (auto simp: load_program_def Let_def split: option.splits)
    from second_pass_failure [OF sp [unfolded r2]] fp None vm' show ?thesis
      by auto
  qed
qed

theorem failed_load_state_witness:
  "load_program (init_vm\<lparr>program := [\<lparr>op = ''HALT'', args = []\<rparr>], labels := [''old'' \<mapsto> 0]\<rparr>)
       ''INC TIME\<newline>FOO'' =
     Raised (ValueError ''Unknown opcode: FOO'') (init_vm\<lparr>program := [\<lparr>op = ''INC'', args = [''TIME'']\<rparr>]\<rparr>) \<and>
   (\<exists>k<length (splitlines ''INC TIME\<newline>FOO'').
      second_pass (take k (splitlines ''INC TIME\<newline>FOO'')) [] =
        (None, [\<lparr>op = ''INC'', args = [''TIME'']\<rparr>]) \<and>
      parse_instr (normalize_line (splitlines ''INC TIME\<newline>FOO'' ! k)) =
        Inl (ValueError ''Unknown opcode: FOO''))"
proof -
  have l: "load_program (init_vm\<lparr>program := [\<lparr>op = ''HALT'', args = []\<rparr>], labels := [''old'' \<mapsto> 0]\<rparr>)
       ''INC TIME\<newline>FOO'' =
     Raised (ValueError ''Unknown opcode: FOO'') (init_vm\<lparr>program := [\<lparr>op = ''INC'', args = [''TIME'']\<rparr>]\<rparr>)"
    by (simp add: load_program_def parse_instr_def init_vm_def str_simps)
  from failed_load_state [OF l] l show ?thesis by auto
qed

text \<open>
  C1, as the claim states it, fails: a load that raises on its third line leaves the
  instruction of the first line in the program and the label of the second line in the
  label table.
\<close>

theorem failed_load_partial_counterexample:
  "load_program init_vm ''INC TIME\<newline>loop:\<newline>FOO\<newline>HALT'' =
     Raised (ValueError ''Unknown opcode: FOO'')
       (init_vm\<lparr>program := [\<lparr>op = ''INC'', args = [''TIME'']\<rparr>], labels := [''loop'' \<mapsto> 1]\<rparr>) \<and>
   program (machine_of (load_program init_vm ''INC TIME\<newline>loop:\<newline>FOO\<newline>HALT'')) \<noteq> [] \<and>
   program (machine_of (load_program init_vm ''INC TIME\<newline>loop:\<newline>FOO\<newline>HALT'')) \<noteq>
     program init_vm \<and>
   labels (machine_of (load_program init_vm ''INC TIME\<newline>loop:\<newline>FOO\<newline>HALT'')) ''loop'' \<noteq>
     labels init_vm ''loop''"
proof -
  have "load_program init_vm ''INC TIME\<newline>loop:\<newline>FOO\<newline>HALT'' =
     Raised (ValueError ''Unknown opcode: FOO'')
       (init_vm\<lparr>program := [\<lparr>op = ''INC'', args = [''TIME'']\<rparr>], labels := [''loop'' \<mapsto> 1]\<rparr>)"
    by (simp add: load_program_def parse_instr_def init_vm_def str_simps)
  then show ?thesis by (simp add: init_vm_def)
qed

subsection \<open>Forward references\<close>

lemma slot_count_simps [simp]:
  "slot_count [] = 0"
  "slot_count (raw # rest) = (if instr_line raw then Suc (slot_count rest) else slot_count rest)"
  by (simp_all add: slot_count_def)

lemma first_pass_keeps:
  "first_pass ls idx labs = (r, labs') \<Longrightarrow> labs n = Some v \<Longrightarrow> labs' n = Some v"
proof (induction ls arbitrary: idx labs)
  case Nil
  then show ?case by simp
next
  case (Cons raw rest)
  show ?case
  proof (cases "first_pass (raw # rest) idx labs = (r, labs)")
    case True
    with Cons.prems show ?thesis by simp
  next
    case False
    let ?line = "normalize_line raw"
    let ?label = "strip (butlast ?line)"
    from False Cons.prems(1) consider
        (blank) "first_pass rest idx labs = (r, labs')"
      | (label) "labs ?label = None" "first_pass rest idx (labs(?label \<mapsto> idx)) = (r, labs')"
      | (code) "first_pass rest (idx + 1) labs = (r, labs')"
      by (auto simp: Let_def split: if_splits)
    then show ?thesis
    proof cases
      case blank
      from Cons.IH [OF this Cons.prems(2)] show ?thesis .
    next
      case label
      from label(1) Cons.prems(2) have "(labs(?label \<mapsto> idx)) n = Some v" by auto
      from Cons.IH [OF label(2) this] show ?thesis .
    next
      case code
      from Cons.IH [OF this Cons.prems(2)] show ?thesis .
    qed
  qed
qed

lemma first_pass_success:
  "\<forall>raw\<in>set ls. label_line raw \<longrightarrow> label_name raw \<noteq> [] \<and> labs (label_name raw) = None \<Longrightarrow>
   distinct (map label_name (filter label_line ls)) \<Longrightarrow>
   \<exists>labs'. first_pass ls idx labs = (None, labs') \<and>
     (\<forall>k<length ls. label_line (ls ! k) \<longrightarrow>
        labs' (label_name (ls ! k)) = Some (idx + int (slot_count (take k ls))))"
proof (induction ls arbitrary: idx labs)
  case Nil
  then show ?case by simp
next
  case (Cons raw rest)
  let ?line = "normalize_line raw"
  consider (blank) "?line = []" | (label) "label_line raw" | (code) "instr_line raw"
    by (auto simp: label_line_def instr_line_def)
  then show ?case
  proof cases
    case blank
    then have no: "\<not> label_line raw" "\<not> instr_line raw"
      by (auto simp: label_line_def instr_line_def endswith_colon_def)
    from Cons.prems no have
      "\<forall>raw\<in>set rest. label_line raw \<longrightarrow> label_name raw \<noteq> [] \<and> labs (label_name raw) = None"
      "distinct (map label_name (filter label_line rest))"
      by simp_all
    from Cons.IH [OF this, of idx] obtain labs' where
      fp: "first_pass rest idx labs = (None, labs')" and
      at: "\<And>k. k < length rest \<Longrightarrow> label_line (rest ! k) \<Longrightarrow>
             labs' (label_name (rest ! k)) = Some (idx + int (slot_count (take k rest)))"
      by blast
    have "first_pass (raw # rest) idx labs = (None, labs')"
      using blank fp by simp
    moreover have "labs' (label_name ((raw # rest) ! k)) =
        Some (idx + int (slot_count (take k (raw # rest))))"
      if "k < length (raw # rest)" "label_line ((raw # rest) ! k)" for k
      using that no at by (cases k) simp_all
    ultimately show ?thesis by blast
  next
    case label
    then have ne: "?line \<noteq> []" and ec: "endswith_colon ?line" and no: "\<not> instr_line raw"
      by (auto simp: label_line_def instr_line_def endswith_colon_def)
    let ?name = "label_name raw"
    from Cons.prems(1) label have name: "?name \<noteq> []" "labs ?name = None" by simp_all
    from Cons.prems(2) label have fresh: "?name \<notin> label_name ` set (filter label_line rest)"
      and dist: "distinct (map label_name (filter label_line rest))"
      by simp_all
    have "\<forall>r\<in>set rest. label_line r \<longrightarrow>
            label_name r \<noteq> [] \<and> (labs(?name \<mapsto> idx)) (label_name r) = None"
    proof (intro ballI impI)
      fix r assume r: "r \<in> set rest" "label_line r"
      with Cons.prems(1) have "label_name r \<noteq> []" "labs (label_name r) = None"
        by simp_all
      moreover have "label_name r \<noteq> ?name"
      proof
        assume "label_name r = ?name"
        moreover from r have "label_name r \<in> label_name ` set (filter label_line rest)"
          by (intro imageI) simp
        ultimately show False using fresh by simp
      qed
      ultimately show "label_name r \<noteq> [] \<and> (labs(?name \<mapsto> idx)) (label_name r) = None"
        by simp
    qed
    from Cons.IH [OF this dist, of idx] obtain labs' where
      fp: "first_pass rest idx (labs(?name \<mapsto> idx)) = (None, labs')" and
      at: "\<And>k. k < length rest \<Longrightarrow> label_line (rest ! k) \<Longrightarrow>
             labs' (label_name (rest ! k)) = Some (idx + int (slot_count (take k rest)))"
      by blast
    have here: "labs' ?name = Some idx"
      by (rule first_pass_keeps [OF fp]) simp
    have "first_pass (raw # rest) idx labs = (None, labs')"
      using ne ec name fp by (simp add: Let_def label_name_def)
    moreover have "labs' (label_name ((raw # rest) ! k)) =
        Some (idx + int (slot_count (take k (raw # rest))))"
      if "k < length (raw # rest)" "label_line ((raw # rest) ! k)" for k
      using that no at here by (cases k) simp_all
    ultimately show ?thesis by blast
  next
    case code
    then have ne: "?line \<noteq> []" and ec: "\<not> endswith_colon ?line" and no: "\<not> label_line raw"
      by (auto simp: label_line_def instr_line_def)
    from Cons.prems no have
      "\<forall>raw\<in>set rest. label_line raw \<longrightarrow> label_name raw \<noteq> [] \<and> labs (label_name raw) = None"
      "distinct (map label_name (filter label_line rest))"
      by simp_all
    from Cons.IH [OF this, of "idx + 1"] obtain labs' where
      fp: "first_pass rest (idx + 1) labs = (None, labs')" and
      at: "\<And>k. k < length rest \<Longrightarrow> label_line (rest ! k) \<Longrightarrow>
             labs' (label_name (rest ! k)) = Some (idx + 1 + int (slot_count (take k rest)))"
      by blast
    have "first_pass (raw # rest) idx labs = (None, labs')"
      using ne ec fp by (simp add: Let_def)
    moreover have "labs' (label_name ((raw # rest) ! k)) =
        Some (idx + int (slot_count (take k (raw # rest))))"
      if "k < length (raw # rest)" "label_line ((raw # rest) ! k)" for k
      using that no code at by (cases k) simp_all
    ultimately show ?thesis by blast
  qed
qed

lemma second_pass_success:
  "\<forall>raw\<in>set ls. instr_line raw \<longrightarrow> (\<exists>i. parse_instr (normalize_line raw) = Inr i) \<Longrightarrow>
   \<exists>added. second_pass ls prog = (None, prog @ added) \<and>
     length added = slot_count ls \<and>
     (\<forall>j<length ls. instr_line (ls ! j) \<longrightarrow>
        parse_instr (normalize_line (ls ! j)) = Inr (added ! slot_count (take j ls)))"
proof (induction ls arbitrary: prog)
  case Nil
  then show ?case by simp
next
  case (Cons raw rest)
  from Cons.prems have rest_ok:
    "\<forall>raw\<in>set rest. instr_line raw \<longrightarrow> (\<exists>i. parse_instr (normalize_line raw) = Inr i)"
    by simp
  show ?case
  proof (cases "instr_line raw")
    case False
    then have skip: "normalize_line raw = [] \<or> endswith_colon (normalize_line raw)"
      by (auto simp: instr_line_def)
    from Cons.IH [OF rest_ok, of prog] obtain added where
      sp: "second_pass rest prog = (None, prog @ added)" and
      len: "length added = slot_count rest" and
      at: "\<And>j. j < length rest \<Longrightarrow> instr_line (rest ! j) \<Longrightarrow>
             parse_instr (normalize_line (rest ! j)) = Inr (added ! slot_count (take j rest))"
      by blast
    have "second_pass (raw # rest) prog = (None, prog @ added)"
      using skip sp by (auto simp: Let_def)
    moreover have "length added = slot_count (raw # rest)"
      using False len by simp
    moreover have "parse_instr (normalize_line ((raw # rest) ! j)) =
        Inr (added ! slot_count (take j (raw # rest)))"
      if "j < length (raw # rest)" "instr_line ((raw # rest) ! j)" for j
      using that False at by (cases j) simp_all
    ultimately show ?thesis by blast
  next
    case True
    then have ne: "normalize_line raw \<noteq> []" and ec: "\<not> endswith_colon (normalize_line raw)"
      by (auto simp: instr_line_def)
    from Cons.prems True obtain i where i: "parse_instr (normalize_line raw) = Inr i"
      by auto
    from Cons.IH [OF rest_ok, of "prog @ [i]"] obtain added where
      sp: "second_pass rest (prog @ [i]) = (None, (prog @ [i]) @ added)" and
      len: "length added = slot_count rest" and
      at: "\<And>j. j < length rest \<Longrightarrow> instr_line (rest ! j) \<Longrightarrow>
             parse_instr (normalize_line (rest ! j)) = Inr (added ! slot_count (take j rest))"
      by blast
    have "second_pass (raw # rest) prog = (None, prog @ (i # added))"
      using ne ec i sp by (simp add: Let_def)
    moreover have "length (i # added) = slot_count (raw # rest)"
      using True len by simp
    moreover have "parse_instr (normalize_line ((raw # rest) ! j)) =
        Inr ((i # added) ! slot_count (take j (raw # rest)))"
      if "j < length (raw # rest)" "instr_line ((raw # rest) ! j)" for j
      using that True at i by (cases j) simp_all
    ultimately show ?thesis by blast
  qed
qed

lemma slot_count_append: "slot_count (xs @ ys) = slot_count xs + slot_count ys"
  by (simp add: slot_count_def)

lemma slot_count_take_less:
  assumes "j < length ls" and "instr_line (ls ! j)"
  shows "slot_count (take j ls) < slot_count ls"
proof -
  have "ls = take j ls @ ls ! j # drop (Suc j) ls"
    using assms(1) by (rule id_take_nth_drop)
  then have "slot_count ls = slot_count (take j ls) + slot_count (ls ! j # drop (Suc j) ls)"
    by (metis slot_count_append)
  with assms(2) show ?thesis by simp
qed

lemma slot_count_next:
  assumes "k < m" and "m \<le> length ls" and "\<forall>n. k \<le> n \<and> n < m \<longrightarrow> \<not> instr_line (ls ! n)"
  shows "slot_count (take m ls) = slot_count (take k ls)"
proof -
  have "take m ls = take k (take m ls) @ drop k (take m ls)"
    by (rule append_take_drop_id [symmetric])
  also have "take k (take m ls) = take k ls" using assms(1) by (simp add: min_def)
  finally have "slot_count (take m ls) = slot_count (take k ls) + slot_count (drop k (take m ls))"
    by (metis slot_count_append)
  moreover have "filter instr_line (drop k (take m ls)) = []"
  proof (rule filter_False, rule ballI)
    fix x assume "x \<in> set (drop k (take m ls))"
    then obtain n where n: "n < length (drop k (take m ls))" and x: "x = drop k (take m ls) ! n"
      by (auto simp: in_set_conv_nth)
    from n assms(2) have "k + n < m" by simp
    with x assms(2) have "x = ls ! (k + n)" by simp
    with assms(3) \<open>k + n < m\<close> show "\<not> instr_line x" by simp
  qed
  ultimately show ?thesis by (simp add: slot_count_def)
qed

text \<open>
  C3.  Take a source whose instruction lines each pass validation and whose label
  definitions are non-empty and pairwise distinct, with a \<^verbatim>\<open>GOTO L\<close> or \<^verbatim>\<open>DECJZ r L\<close> on
  line \<open>j\<close> and the definition of \<open>L\<close> on a later line \<open>k\<close>.  Then the load returns
  normally; the label table maps \<open>L\<close> to the number of instruction lines before line \<open>k\<close>;
  the program has one instruction per instruction line and none for a label definition,
  so that this number is the index of the instruction of the first instruction line
  after line \<open>k\<close>; and a step on the referencing instruction (for \<^verbatim>\<open>DECJZ\<close>, with the
  register at 0) sets the program counter to that index.
\<close>

theorem forward_reference:
  assumes lines: "splitlines src = ls"
    and instrs_ok: "\<forall>raw\<in>set ls. instr_line raw \<longrightarrow> (\<exists>i. parse_instr (normalize_line raw) = Inr i)"
    and names_ok: "\<forall>raw\<in>set ls. label_line raw \<longrightarrow> label_name raw \<noteq> []"
    and names_distinct: "distinct (map label_name (filter label_line ls))"
    and order: "j < k" "k < length ls"
    and ref: "instr_line (ls ! j)" "parse_instr (normalize_line (ls ! j)) = Inr ins"
      "ins = \<lparr>op = ''GOTO'', args = [L]\<rparr> \<or> ins = \<lparr>op = ''DECJZ'', args = [r, L]\<rparr>"
    and def: "label_line (ls ! k)" "label_name (ls ! k) = L"
  shows "\<exists>vm'. load_program vm src = Returned vm' \<and>
           labels vm' L = Some (int (slot_count (take k ls))) \<and>
           length (program vm') = slot_count ls \<and>
           (\<forall>m. k < m \<and> m < length ls \<and> instr_line (ls ! m) \<and>
                (\<forall>n. k < n \<and> n < m \<longrightarrow> \<not> instr_line (ls ! n)) \<longrightarrow>
                parse_instr (normalize_line (ls ! m)) =
                  Inr (program vm' ! slot_count (take k ls))) \<and>
           program vm' ! slot_count (take j ls) = ins \<and>
           (\<forall>s. program s = program vm' \<and> labels s = labels vm' \<and> \<not> halted s \<and>
                pc s = int (slot_count (take j ls)) \<and>
                (op ins = ''DECJZ'' \<longrightarrow> reg_get (registers s) (upper r) = 0) \<longrightarrow>
                step s = Returned (s\<lparr>steps := steps s + 1,
                                     pc := int (slot_count (take k ls))\<rparr>))"
proof -
  have "\<forall>raw\<in>set ls. label_line raw \<longrightarrow>
          label_name raw \<noteq> [] \<and> (Map.empty :: string \<rightharpoonup> int) (label_name raw) = None"
    using names_ok by simp
  from first_pass_success [OF this names_distinct, of 0] obtain labs where
    fp: "first_pass ls 0 Map.empty = (None, labs)" and
    labs: "\<And>k. k < length ls \<Longrightarrow> label_line (ls ! k) \<Longrightarrow>
             labs (label_name (ls ! k)) = Some (int (slot_count (take k ls)))"
    by auto
  from second_pass_success [OF instrs_ok, of "[]"] obtain prog where
    sp: "second_pass ls [] = (None, prog)" and
    len: "length prog = slot_count ls" and
    prog: "\<And>j. j < length ls \<Longrightarrow> instr_line (ls ! j) \<Longrightarrow>
             parse_instr (normalize_line (ls ! j)) = Inr (prog ! slot_count (take j ls))"
    by auto
  let ?vm' = "vm\<lparr>program := prog, labels := labs, pc := 0, halted := False, steps := 0\<rparr>"
  have load: "load_program vm src = Returned ?vm'"
    using fp sp lines by (simp add: load_program_def)
  have target: "labs L = Some (int (slot_count (take k ls)))"
    using labs [OF order(2) def(1)] def(2) by simp
  have jlen: "j < length ls" using order by simp
  have at_j: "prog ! slot_count (take j ls) = ins"
    using prog [OF jlen ref(1)] ref(2) by simp
  have in_range: "slot_count (take j ls) < length prog"
    using slot_count_take_less [OF jlen ref(1)] len by simp
  have following: "parse_instr (normalize_line (ls ! m)) = Inr (prog ! slot_count (take k ls))"
    if m: "k < m" "m < length ls" "instr_line (ls ! m)"
      and none: "\<forall>n. k < n \<and> n < m \<longrightarrow> \<not> instr_line (ls ! n)" for m
  proof -
    have "\<not> instr_line (ls ! k)"
      using def(1) by (simp add: label_line_def instr_line_def)
    with none have "\<forall>n. k \<le> n \<and> n < m \<longrightarrow> \<not> instr_line (ls ! n)"
      by (metis le_neq_implies_less)
    with m have "slot_count (take m ls) = slot_count (take k ls)"
      by (intro slot_count_next) simp_all
    with prog [OF m(2) m(3)] show ?thesis by simp
  qed
  have exec: "step s = Returned (s\<lparr>steps := steps s + 1, pc := int (slot_count (take k ls))\<rparr>)"
    if s: "program s = prog" "labels s = labs" "\<not> halted s" "pc s = int (slot_count (take j ls))"
      "op ins = ''DECJZ'' \<longrightarrow> reg_get (registers s) (upper r) = 0" for s
  proof -
    have fetch: "program s ! nat (pc s) = ins" using s(1,4) at_j by simp
    have rng: "0 \<le> pc s \<and> pc s < int (length (program s))" using s(1,4) in_range by simp
    from ref(3) show ?thesis
    proof
      assume "ins = \<lparr>op = ''GOTO'', args = [L]\<rparr>"
      with fetch rng s(2,3) target show ?thesis by (simp add: step_def Let_def)
    next
      assume "ins = \<lparr>op = ''DECJZ'', args = [r, L]\<rparr>"
      with fetch rng s(2,3,5) target show ?thesis by (simp add: step_def Let_def)
    qed
  qed
  show ?thesis
    apply (rule exI [of _ ?vm'])
    using load target len following at_j exec by simp
qed

theorem forward_reference_witness:
  "\<exists>vm'. load_program init_vm ''loop:\<newline>  DECJZ POWER end\<newline>  INC TIME\<newline>  GOTO loop\<newline>end:\<newline>  HALT'' = Returned vm' \<and>
      labels vm' ''end'' = Some 3 \<and>
      length (program vm') = 4 \<and>
      program vm' ! 3 = \<lparr>op = ''HALT'', args = []\<rparr> \<and>
      program vm' ! 0 = \<lparr>op = ''DECJZ'', args = [''POWER'', ''end'']\<rparr> \<and>
      step vm' = Returned (vm'\<lparr>steps := 1, pc := 3\<rparr>)"
proof -
  let ?src = "''loop:\<newline>  DECJZ POWER end\<newline>  INC TIME\<newline>  GOTO loop\<newline>end:\<newline>  HALT''"
  let ?ls = "[''loop:'', ''  DECJZ POWER end'', ''  INC TIME'', ''  GOTO loop'', ''end:'', ''  HALT'']"
  let ?ins = "\<lparr>op = ''DECJZ'', args = [''POWER'', ''end'']\<rparr>"
  have n: "normalize_line ''loop:'' = ''loop:''" "normalize_line ''  DECJZ POWER end'' = ''DECJZ POWER end''"
    "normalize_line ''  INC TIME'' = ''INC TIME''" "normalize_line ''  GOTO loop'' = ''GOTO loop''"
    "normalize_line ''end:'' = ''end:''" "normalize_line ''  HALT'' = ''HALT''"
    by (simp_all add: normalize_line_def split_first_def strip_def isspace_def)
  have p: "parse_instr ''DECJZ POWER end'' = Inr ?ins"
    "parse_instr ''INC TIME'' = Inr \<lparr>op = ''INC'', args = [''TIME'']\<rparr>"
    "parse_instr ''GOTO loop'' = Inr \<lparr>op = ''GOTO'', args = [''loop'']\<rparr>"
    "parse_instr ''HALT'' = Inr \<lparr>op = ''HALT'', args = []\<rparr>"
    by (simp_all add: parse_instr_def str_simps)
  have kinds: "label_line ''loop:''" "instr_line ''  DECJZ POWER end''" "instr_line ''  INC TIME''"
    "instr_line ''  GOTO loop''" "label_line ''end:''" "instr_line ''  HALT''"
    "\<not> instr_line ''loop:''" "\<not> label_line ''  DECJZ POWER end''" "\<not> label_line ''  INC TIME''"
    "\<not> label_line ''  GOTO loop''" "\<not> instr_line ''end:''" "\<not> label_line ''  HALT''"
    by (simp_all add: label_line_def instr_line_def n endswith_colon_def)
  have names: "label_name ''loop:'' = ''loop''" "label_name ''end:'' = ''end''"
    by (simp_all add: label_name_def n strip_def isspace_def)
  have h1: "splitlines ?src = ?ls" by (simp add: splitlines_def islinebreak_def)
  have h2: "\<forall>raw\<in>set ?ls. instr_line raw \<longrightarrow> (\<exists>i. parse_instr (normalize_line raw) = Inr i)"
    by (simp add: n p kinds)
  have h3: "\<forall>raw\<in>set ?ls. label_line raw \<longrightarrow> label_name raw \<noteq> []"
    by (simp add: kinds names)
  have h4: "distinct (map label_name (filter label_line ?ls))"
    by (simp add: kinds names)
  have h5: "(1::nat) < 4" "4 < length ?ls" by simp_all
  have h6: "instr_line (?ls ! 1)" "parse_instr (normalize_line (?ls ! 1)) = Inr ?ins"
    "?ins = \<lparr>op = ''GOTO'', args = [''end'']\<rparr> \<or> ?ins = \<lparr>op = ''DECJZ'', args = [''POWER'', ''end'']\<rparr>"
    by (simp_all add: kinds n p)
  have h7: "label_line (?ls ! 4)" "label_name (?ls ! 4) = ''end''"
    by (simp_all add: kinds names)
  have c: "slot_count (take 4 ?ls) = 3" "slot_count (take 1 ?ls) = 0" "slot_count ?ls = 4"
    by (simp_all add: kinds numeral_eq_Suc)
  have u: "upper ''POWER'' = ''POWER''"
    by (simp add: upper_def upper_char_def char_of_def bit_Suc_0_iff)
  from forward_reference [OF h1 h2 h3 h4 h5 h6 h7, of init_vm]
  obtain vm' where vm': "load_program init_vm ?src = Returned vm'"
    "labels vm' ''end'' = Some 3" "length (program vm') = 4"
    "\<forall>m. 4 < m \<and> m < length ?ls \<and> instr_line (?ls ! m) \<and>
                (\<forall>n. 4 < n \<and> n < m \<longrightarrow> \<not> instr_line (?ls ! n)) \<longrightarrow>
                parse_instr (normalize_line (?ls ! m)) = Inr (program vm' ! 3)"
    "program vm' ! 0 = ?ins"
    "\<forall>s. program s = program vm' \<and> labels s = labels vm' \<and> \<not> halted s \<and>
                pc s = 0 \<and>
                (op ?ins = ''DECJZ'' \<longrightarrow> reg_get (registers s) (upper ''POWER'') = 0) \<longrightarrow>
                step s = Returned (s\<lparr>steps := steps s + 1, pc := 3\<rparr>)"
    unfolding c by auto
  from vm'(4) [rule_format, of 5] have "program vm' ! 3 = \<lparr>op = ''HALT'', args = []\<rparr>"
    by (simp add: kinds n p)
  moreover have st: "\<not> halted vm'" "pc vm' = 0" "steps vm' = 0" "registers vm' = registers init_vm"
    using vm'(1) by (auto simp: load_program_def Let_def split: prod.splits option.splits)
  moreover from vm'(6) [rule_format, of vm'] st have "step vm' = Returned (vm'\<lparr>steps := 1, pc := 3\<rparr>)"
    by (simp add: u reg_get_def init_vm_def)
  ultimately show ?thesis using vm' by blast
qed

end
